theory Spec2Isabelle
  imports Complex_Main "HOL-Library.Word" "HOL-Library.Sublist"
begin

section \<open>The in-memory repository (todoRepository.js)\<close>

text \<open>
  JavaScript numbers are IEEE doubles. The id counter starts at 1 and only ever grows by
  \<open>nextId++\<close>; on the integers below \<open>2^53\<close> that increment is exact, and the
  model takes the counter and the ids in that range, as values of type \<open>int\<close>.
  The argument of \<open>remove\<close> is any number the caller passes; the router passes
  the result of \<open>parseInt\<close>, which is an integer or \<open>NaN\<close>.
\<close>

datatype jsnum = NaN | Num int

text \<open>\<open>task.id === id\<close> with \<open>task.id\<close> an integer: \<open>NaN\<close> equals nothing.\<close>

fun strict_eq :: "int \<Rightarrow> jsnum \<Rightarrow> bool" where
  "strict_eq i NaN = False"
| "strict_eq i (Num j) = (i = j)"

text \<open>
  A task object \<open>{ id, description }\<close>. The repository never looks into the
  description, so its type is a parameter; the router stores JSON values there.
\<close>

record 'd task =
  task_id :: int
  description :: 'd

text \<open>
  Arrays are objects with an identity: \<open>getAll\<close> builds a new one, \<open>push\<close> and
  \<open>splice\<close> change one in place, \<open>reset\<close> binds the module variable \<open>tasks\<close>
  to a new one. The state therefore holds a store of arrays, addressed by references,
  the next unallocated reference, and the two module variables.
\<close>

type_synonym ref = nat

record 'd repo =
  arrays :: "ref \<Rightarrow> 'd task list"
  fresh :: ref
  tasks :: ref
  nextId :: int

text \<open>The contents of the array the module variable \<open>tasks\<close> is bound to.\<close>

definition tasks_arr :: "'d repo \<Rightarrow> 'd task list" where
  "tasks_arr s = arrays s (tasks s)"

text \<open>The module at load time: \<open>let tasks = []; let nextId = 1;\<close>\<close>

definition init :: "'d repo" where
  "init = \<lparr>arrays = (\<lambda>_. []), fresh = 1, tasks = 0, nextId = 1\<rparr>"

text \<open>\<open>Array.prototype.findIndex\<close>: the first index whose element satisfies the
  predicate, \<open>-1\<close> when there is none.\<close>

fun findIndex :: "('a \<Rightarrow> bool) \<Rightarrow> 'a list \<Rightarrow> int" where
  "findIndex p [] = - 1"
| "findIndex p (x # xs) =
     (if p x then 0
      else (let i = findIndex p xs in if i = - 1 then - 1 else i + 1))"

text \<open>\<open>Array.prototype.splice(start, deleteCount)\<close> without inserted items, as the
  array is afterwards: a negative start counts from the end, and both arguments are
  clamped to the array.\<close>

definition splice_arr :: "'a list \<Rightarrow> int \<Rightarrow> int \<Rightarrow> 'a list" where
  "splice_arr xs start deleteCount =
     (let len = int (length xs);
          st = (if start < 0 then max (len + start) 0 else min start len);
          dc = min (max deleteCount 0) (len - st)
      in take (nat st) xs @ drop (nat (st + dc)) xs)"

text \<open>\<open>export const getAll = () => [...tasks];\<close> The result is the reference of
  the new array.\<close>

definition getAll :: "'d repo \<Rightarrow> ref \<times> 'd repo" where
  "getAll s =
     (fresh s, s\<lparr>arrays := (arrays s)(fresh s := tasks_arr s), fresh := fresh s + 1\<rparr>)"

text \<open>\<open>const task = { id: nextId++, description }; tasks.push(task); return task;\<close>\<close>

definition create :: "'d \<Rightarrow> 'd repo \<Rightarrow> 'd task \<times> 'd repo" where
  "create d s =
     (let task = \<lparr>task_id = nextId s, description = d\<rparr>
      in (task, s\<lparr>arrays := (arrays s)(tasks s := tasks_arr s @ [task]),
                   nextId := nextId s + 1\<rparr>))"

text \<open>\<open>tasks = []; nextId = 1;\<close>\<close>

definition reset :: "'d repo \<Rightarrow> 'd repo" where
  "reset s =
     s\<lparr>arrays := (arrays s)(fresh s := []), fresh := fresh s + 1,
       tasks := fresh s, nextId := 1\<rparr>"

text \<open>
  \<^verbatim>\<open>
  const index = tasks.findIndex((task) => task.id === id);
  if (index === -1) { return false; }
  tasks.splice(index, 1);
  return true;
  \<close>
\<close>

definition remove :: "jsnum \<Rightarrow> 'd repo \<Rightarrow> bool \<times> 'd repo" where
  "remove x s =
     (let index = findIndex (\<lambda>task. strict_eq (task_id task) x) (tasks_arr s)
      in if index = - 1 then (False, s)
         else (True, s\<lparr>arrays := (arrays s)(tasks s := splice_arr (tasks_arr s) index 1)\<rparr>))"

text \<open>The sequence a caller reads from the array \<open>getAll\<close> has just returned.\<close>

definition getAll_tasks :: "'d repo \<Rightarrow> 'd task list" where
  "getAll_tasks s = arrays (snd (getAll s)) (fst (getAll s))"

subsection \<open>Sequences of calls\<close>

datatype 'd call = GetAll | Create 'd | Remove jsnum | Reset

datatype 'd result = Arr ref | Created "'d task" | Removed bool | Done

fun exec :: "'d call \<Rightarrow> 'd repo \<Rightarrow> 'd result \<times> 'd repo" where
  "exec GetAll s = (Arr (fst (getAll s)), snd (getAll s))"
| "exec (Create d) s = (Created (fst (create d s)), snd (create d s))"
| "exec (Remove x) s = (Removed (fst (remove x s)), snd (remove x s))"
| "exec Reset s = (Done, reset s)"

fun run :: "'d call list \<Rightarrow> 'd repo \<Rightarrow> 'd result list \<times> 'd repo" where
  "run [] s = ([], s)"
| "run (c # cs) s =
     (fst (exec c s) # fst (run cs (snd (exec c s))), snd (run cs (snd (exec c s))))"

text \<open>The ids that the \<open>create\<close> calls of a run returned, in order.\<close>

fun created_ids :: "'d result list \<Rightarrow> int list" where
  "created_ids [] = []"
| "created_ids (Created t # rs) = task_id t # created_ids rs"
| "created_ids (_ # rs) = created_ids rs"

text \<open>The module variables are private: the states of a running process are those the
  exported functions lead to from the state at load time.\<close>

inductive reachable :: "'d repo \<Rightarrow> bool" where
  reachable_init: "reachable init"
| reachable_exec: "reachable s \<Longrightarrow> reachable (snd (exec c s))"

text \<open>Every stored id is below the counter, and no two stored tasks share an id.\<close>

definition repo_inv :: "'d repo \<Rightarrow> bool" where
  "repo_inv s \<longleftrightarrow>
     (\<forall>t \<in> set (tasks_arr s). task_id t < nextId s) \<and> distinct (map task_id (tasks_arr s))"

text \<open>The array bound to \<open>tasks\<close> has been allocated.\<close>

definition allocated :: "'d repo \<Rightarrow> bool" where
  "allocated s \<longleftrightarrow> tasks s < fresh s"

section \<open>JavaScript values of a request\<close>

text \<open>A JavaScript string is a sequence of UTF-16 code units; \<open>length\<close> counts them.\<close>

type_synonym jsstring = "16 word list"

definition js :: "string \<Rightarrow> jsstring" where
  "js s = map of_char s"

text \<open>
  The values that \<open>express.json()\<close> hands to a handler, and \<open>undefined\<close>, which a
  missing body and a missing property evaluate to. A JSON number is a double; the finite
  ones are rationals. An object is its table of own properties, as \<open>JSON.parse\<close>
  leaves it (each name once).
\<close>

datatype jsval =
  JUndefined
| JNull
| JBool bool
| JNum rat
| JStr jsstring
| JArr "jsval list"
| JObj "(jsstring \<times> jsval) list"

datatype error = TypeError

text \<open>The three property names that the router reads. None of them is an array index or
  a property that \<open>Object.prototype\<close> provides.\<close>

datatype pname = Prop_task | Prop_description | Prop_length

fun prop_name :: "pname \<Rightarrow> jsstring" where
  "prop_name Prop_task = js ''task''"
| "prop_name Prop_description = js ''description''"
| "prop_name Prop_length = js ''length''"

text \<open>
  Reading a property \<open>v.p\<close>: a \<open>TypeError\<close> on \<open>undefined\<close> and \<open>null\<close>;
  \<open>undefined\<close> on a boolean or a number; strings and arrays have \<open>length\<close>;
  an object has what its table holds. Destructuring \<open>const { task } = v\<close> reads
  the same way.
\<close>

fun get_prop :: "jsval \<Rightarrow> pname \<Rightarrow> error + jsval" where
  "get_prop JUndefined p = Inl TypeError"
| "get_prop JNull p = Inl TypeError"
| "get_prop (JBool b) p = Inr JUndefined"
| "get_prop (JNum n) p = Inr JUndefined"
| "get_prop (JStr s) p = Inr (if p = Prop_length then JNum (of_nat (length s)) else JUndefined)"
| "get_prop (JArr xs) p = Inr (if p = Prop_length then JNum (of_nat (length xs)) else JUndefined)"
| "get_prop (JObj kvs) p =
     Inr (case map_of kvs (prop_name p) of None \<Rightarrow> JUndefined | Some v \<Rightarrow> v)"

text \<open>\<open>!v\<close> is false exactly on the truthy values.\<close>

fun truthy :: "jsval \<Rightarrow> bool" where
  "truthy JUndefined = False"
| "truthy JNull = False"
| "truthy (JBool b) = b"
| "truthy (JNum n) = (n \<noteq> 0)"
| "truthy (JStr s) = (s \<noteq> [])"
| "truthy (JArr xs) = True"
| "truthy (JObj kvs) = True"

text \<open>
  \<open>v < 3\<close>: both sides become numbers, and the comparison is false when one of them is
  \<open>NaN\<close>. \<open>undefined\<close> becomes \<open>NaN\<close>, \<open>null\<close> 0, \<open>false\<close> 0, \<open>true\<close> 1.
  How a string, an array or an object becomes a number is the engine's conversion
  (\<open>ToPrimitive\<close>, then the string-to-number grammar); its answer for these values is
  the parameter \<open>conv\<close>.
\<close>

fun less_than_3 :: "(jsval \<Rightarrow> bool) \<Rightarrow> jsval \<Rightarrow> bool" where
  "less_than_3 conv JUndefined = False"
| "less_than_3 conv JNull = True"
| "less_than_3 conv (JBool b) = True"
| "less_than_3 conv (JNum n) = (n < 3)"
| "less_than_3 conv v = conv v"

subsection \<open>\<open>parseInt(string, 10)\<close>\<close>

text \<open>White space and line terminators, as \<open>parseInt\<close> strips them from the front.\<close>

definition is_ws :: "16 word \<Rightarrow> bool" where
  "is_ws c \<longleftrightarrow>
     c \<in> {0x9, 0xA, 0xB, 0xC, 0xD, 0x20, 0xA0, 0x1680, 0x2028, 0x2029, 0x202F, 0x205F,
          0x3000, 0xFEFF} \<or> (0x2000 \<le> c \<and> c \<le> 0x200A)"

definition is_digit :: "16 word \<Rightarrow> bool" where
  "is_digit c \<longleftrightarrow> 0x30 \<le> c \<and> c \<le> 0x39"

definition is_sign :: "16 word \<Rightarrow> bool" where
  "is_sign c \<longleftrightarrow> c = 0x2B \<or> c = 0x2D"

definition digit_value :: "16 word \<Rightarrow> int" where
  "digit_value c = uint c - 48"

text \<open>
  Leading white space is dropped, one sign is read, then the longest run of decimal
  digits; the rest of the string is ignored. No digit at that place gives \<open>NaN\<close>.
  The value is the integer the digits denote (\<open>-0\<close> and \<open>0\<close> are the same number for
  \<open>===\<close>); beyond \<open>2^53\<close> JavaScript rounds it to a double, which no id in the
  modelled range equals either way.
\<close>

definition parseInt :: "jsstring \<Rightarrow> jsnum" where
  "parseInt string =
     (let s = dropWhile is_ws string;
          sign = (if s \<noteq> [] \<and> hd s = 0x2D then - 1 else 1);
          s' = (if s \<noteq> [] \<and> is_sign (hd s) then tl s else s);
          z = takeWhile is_digit s'
      in if z = [] then NaN
         else Num (sign * foldl (\<lambda>n c. 10 * n + digit_value c) 0 z))"

section \<open>Requests, responses and middleware (app.js, the authentication middleware, todoRouter.js)\<close>

text \<open>
  What the handlers read of a request: \<open>req.headers["authorization"]\<close> (a string, or
  \<open>undefined\<close>), \<open>req.body\<close> and \<open>req.params.id\<close>.
\<close>

record request =
  authorization :: "jsstring option"
  body :: jsval
  id_param :: jsstring

text \<open>What \<open>res.status(n).json(v)\<close> and \<open>res.status(n).send()\<close> send.\<close>

datatype payload =
  Tasks "jsval task list"
| OneTask "jsval task"
| ErrorText string
| MessageText string
| ErrorObject error nat
| Empty
| NotFoundPage

record response =
  status :: nat
  payload :: payload

text \<open>A middleware function ends by sending a response, by \<open>next()\<close> or by
  \<open>next(err)\<close>.\<close>

datatype outcome = Respond response | Next | NextErr error

type_synonym handler = "request \<Rightarrow> jsval repo \<Rightarrow> outcome \<times> jsval repo"

text \<open>
  The authentication middleware. \<open>verify token\<close> holds when
  \<open>jwt.verify(token, process.env.JWT_SECRET, callback)\<close> calls back without an error.
  \<^verbatim>\<open>
  const token = req.headers["authorization"];
  if (!token) { return res.status(401).json({ message: "No token provided" }); }
  jwt.verify(token, process.env.JWT_SECRET, (err) => {
    if (err) { return res.status(401).json({ message: "Failed to authenticate token" }); }
    next();
  });
  \<close>
\<close>

definition auth :: "(jsstring \<Rightarrow> bool) \<Rightarrow> handler" where
  "auth verify req s =
     (case authorization req of
        None \<Rightarrow> (Respond \<lparr>status = 401, payload = MessageText ''No token provided''\<rparr>, s)
      | Some token \<Rightarrow>
          if token = [] then
            (Respond \<lparr>status = 401, payload = MessageText ''No token provided''\<rparr>, s)
          else if \<not> verify token then
            (Respond \<lparr>status = 401, payload = MessageText ''Failed to authenticate token''\<rparr>, s)
          else (Next, s))"

text \<open>\<open>router.get("/")\<close>: \<open>const tasks = await todoRepo.getAll(); res.status(200).json(tasks);\<close>\<close>

definition list_handler :: handler where
  "list_handler req s =
     (let tasks = fst (getAll s); s' = snd (getAll s)
      in (Respond \<lparr>status = 200, payload = Tasks (arrays s' tasks)\<rparr>, s'))"

text \<open>
  \<open>router.post("/create")\<close>, after \<open>auth\<close>. An exception in the \<open>try\<close> block goes to
  \<open>next(err)\<close>.
  \<^verbatim>\<open>
  const { task } = req.body;
  if (!task || !task.description) {
    return res.status(400).json({ error: "Task is required" });
  }
  if (task.description.length < 3) {
    return res.status(400).json({ error: "Description must be at least 3 characters long" });
  }
  const created = await todoRepo.create(task.description);
  res.status(201).json(created);
  \<close>
\<close>

definition create_handler :: "(jsval \<Rightarrow> bool) \<Rightarrow> handler" where
  "create_handler conv req s =
     (case get_prop (body req) Prop_task of
        Inl err \<Rightarrow> (NextErr err, s)
      | Inr task \<Rightarrow>
          if \<not> truthy task then
            (Respond \<lparr>status = 400, payload = ErrorText ''Task is required''\<rparr>, s)
          else
            (case get_prop task Prop_description of
               Inl err \<Rightarrow> (NextErr err, s)
             | Inr descr \<Rightarrow>
                 if \<not> truthy descr then
                   (Respond \<lparr>status = 400, payload = ErrorText ''Task is required''\<rparr>, s)
                 else
                   (case get_prop descr Prop_length of
                      Inl err \<Rightarrow> (NextErr err, s)
                    | Inr len \<Rightarrow>
                        if less_than_3 conv len then
                          (Respond \<lparr>status = 400, payload =
                             ErrorText ''Description must be at least 3 characters long''\<rparr>, s)
                        else
                          (let created = fst (create descr s); s' = snd (create descr s)
                           in (Respond \<lparr>status = 201, payload = OneTask created\<rparr>, s')))))"

text \<open>
  \<open>router.delete("/:id")\<close>, after \<open>auth\<close>.
  \<^verbatim>\<open>
  const id = parseInt(req.params.id, 10);
  const deleted = await todoRepo.remove(id);
  if (deleted) { return res.status(204).send(); }
  res.status(404).json({ error: "Task not found" });
  \<close>
\<close>

definition delete_handler :: handler where
  "delete_handler req s =
     (let id = parseInt (id_param req);
          deleted = fst (remove id s); s' = snd (remove id s)
      in if deleted then (Respond \<lparr>status = 204, payload = Empty\<rparr>, s')
         else (Respond \<lparr>status = 404, payload = ErrorText ''Task not found''\<rparr>, s'))"

text \<open>
  The error-handling middleware of app.js:
  \<open>const status = err?.status || 500; res.status(status).json({ error: { message: err.message, status } });\<close>
  A \<open>TypeError\<close> carries no \<open>status\<close>.
\<close>

fun error_status :: "error \<Rightarrow> nat option" where
  "error_status TypeError = None"

definition error_handler :: "error \<Rightarrow> response" where
  "error_handler err =
     (let status = (case error_status err of None \<Rightarrow> 500 | Some n \<Rightarrow> if n = 0 then 500 else n)
      in \<lparr>status = status, payload = ErrorObject err status\<rparr>)"

text \<open>Express runs the functions of a route in the order they are listed; one that does
  not call \<open>next()\<close> ends the chain.\<close>

fun run_chain :: "handler list \<Rightarrow> handler" where
  "run_chain [] req s = (Next, s)"
| "run_chain (h # hs) req s =
     (case fst (h req s) of
        Next \<Rightarrow> run_chain hs req (snd (h req s))
      | out \<Rightarrow> (out, snd (h req s)))"

text \<open>The response of the application to a request on a route: an error passed to
  \<open>next\<close> reaches the error handler, and a request no function answered gets
  Express's own 404.\<close>

definition respond :: "handler list \<Rightarrow> request \<Rightarrow> jsval repo \<Rightarrow> response \<times> jsval repo" where
  "respond hs req s =
     (case fst (run_chain hs req s) of
        Respond r \<Rightarrow> (r, snd (run_chain hs req s))
      | NextErr err \<Rightarrow> (error_handler err, snd (run_chain hs req s))
      | Next \<Rightarrow> (\<lparr>status = 404, payload = NotFoundPage\<rparr>, snd (run_chain hs req s)))"

text \<open>The three routes: \<open>router.get("/", ...)\<close>, \<open>router.post("/create", auth, ...)\<close>,
  \<open>router.delete("/:id", auth, ...)\<close>.\<close>

definition get_root :: "request \<Rightarrow> jsval repo \<Rightarrow> response \<times> jsval repo" where
  "get_root = respond [list_handler]"

definition post_create ::
  "(jsstring \<Rightarrow> bool) \<Rightarrow> (jsval \<Rightarrow> bool) \<Rightarrow> request \<Rightarrow> jsval repo \<Rightarrow> response \<times> jsval repo" where
  "post_create verify conv = respond [auth verify, create_handler conv]"

definition delete_id ::
  "(jsstring \<Rightarrow> bool) \<Rightarrow> request \<Rightarrow> jsval repo \<Rightarrow> response \<times> jsval repo" where
  "delete_id verify = respond [auth verify, delete_handler]"

section \<open>Properties of the repository\<close>

lemma findIndex_ge: "- 1 \<le> findIndex p xs"
  by (induction xs) (auto simp: Let_def)

lemma findIndex_none: "findIndex p xs = - 1 \<longleftrightarrow> (\<forall>x \<in> set xs. \<not> p x)"
proof (induction xs)
  case Nil
  show ?case by simp
next
  case (Cons x xs)
  have "- 1 \<le> findIndex p xs" by (rule findIndex_ge)
  with Cons show ?case by (auto simp: Let_def)
qed

lemma findIndex_split:
  "findIndex p xs \<noteq> - 1 \<Longrightarrow>
   \<exists>pre t post. xs = pre @ t # post \<and> p t \<and> (\<forall>u \<in> set pre. \<not> p u) \<and>
     findIndex p xs = int (length pre)"
proof (induction xs)
  case Nil
  then show ?case by simp
next
  case (Cons x xs)
  show ?case
  proof (cases "p x")
    case True
    then have "x # xs = [] @ x # xs \<and> p x \<and> (\<forall>u \<in> set []. \<not> p u) \<and>
      findIndex p (x # xs) = int (length ([]::'a list))" by simp
    then show ?thesis by blast
  next
    case False
    with Cons.prems have ne: "findIndex p xs \<noteq> - 1" by (auto simp: Let_def)
    from Cons.IH [OF ne] obtain pre t post where
      h: "xs = pre @ t # post" "p t" "\<forall>u \<in> set pre. \<not> p u" "findIndex p xs = int (length pre)"
      by blast
    from h False ne have "x # xs = (x # pre) @ t # post \<and> p t \<and> (\<forall>u \<in> set (x # pre). \<not> p u) \<and>
      findIndex p (x # xs) = int (length (x # pre))" by (simp add: Let_def)
    then show ?thesis by blast
  qed
qed

lemma splice_one: "splice_arr (pre @ t # post) (int (length pre)) 1 = pre @ post"
proof -
  have "nat (int (length pre) + 1) = Suc (length pre)" by simp
  then show ?thesis by (simp add: splice_arr_def Let_def)
qed

text \<open>What each operation does to the array of tasks and to the counter.\<close>

lemma getAll_store:
  "tasks (snd (getAll s)) = tasks s" "nextId (snd (getAll s)) = nextId s"
  "fresh (snd (getAll s)) = fresh s + 1" "fst (getAll s) = fresh s"
  "arrays (snd (getAll s)) = (arrays s)(fresh s := tasks_arr s)"
  by (simp_all add: getAll_def)

lemma create_store:
  "fst (create d s) = \<lparr>task_id = nextId s, description = d\<rparr>"
  "tasks_arr (snd (create d s)) = tasks_arr s @ [\<lparr>task_id = nextId s, description = d\<rparr>]"
  "nextId (snd (create d s)) = nextId s + 1"
  "tasks (snd (create d s)) = tasks s" "fresh (snd (create d s)) = fresh s"
  by (simp_all add: create_def tasks_arr_def Let_def)

lemma reset_store:
  "tasks_arr (reset s) = []" "nextId (reset s) = 1"
  "tasks (reset s) = fresh s" "fresh (reset s) = fresh s + 1"
  by (simp_all add: reset_def tasks_arr_def)

lemma remove_absent:
  "\<forall>t \<in> set (tasks_arr s). \<not> strict_eq (task_id t) x \<Longrightarrow> remove x s = (False, s)"
  by (simp add: remove_def findIndex_none)

lemma remove_present:
  assumes "\<exists>t \<in> set (tasks_arr s). strict_eq (task_id t) x"
  shows "\<exists>pre t post. tasks_arr s = pre @ t # post \<and> strict_eq (task_id t) x \<and>
           (\<forall>u \<in> set pre. \<not> strict_eq (task_id u) x) \<and>
           remove x s = (True, s\<lparr>arrays := (arrays s)(tasks s := pre @ post)\<rparr>)"
proof -
  let ?p = "\<lambda>task. strict_eq (task_id task) x"
  from assms have ne: "findIndex ?p (tasks_arr s) \<noteq> - 1" by (simp add: findIndex_none)
  from findIndex_split [OF ne] obtain pre t post where
    h: "tasks_arr s = pre @ t # post" "?p t" "\<forall>u \<in> set pre. \<not> ?p u"
       "findIndex ?p (tasks_arr s) = int (length pre)"
    by blast
  have "splice_arr (tasks_arr s) (findIndex ?p (tasks_arr s)) 1 = pre @ post"
    by (simp only: h(4)) (simp only: h(1) splice_one)
  with ne have "remove x s = (True, s\<lparr>arrays := (arrays s)(tasks s := pre @ post)\<rparr>)"
    by (simp add: remove_def Let_def)
  with h show ?thesis by blast
qed

lemma remove_fields:
  "tasks (snd (remove x s)) = tasks s" "nextId (snd (remove x s)) = nextId s"
  "fresh (snd (remove x s)) = fresh s"
  by (simp_all add: remove_def Let_def)

lemma remove_cases:
  "(remove x s = (False, s) \<and> (\<forall>t \<in> set (tasks_arr s). \<not> strict_eq (task_id t) x)) \<or>
   (\<exists>pre t post. tasks_arr s = pre @ t # post \<and> strict_eq (task_id t) x \<and>
      (\<forall>u \<in> set pre. \<not> strict_eq (task_id u) x) \<and>
      fst (remove x s) = True \<and> tasks_arr (snd (remove x s)) = pre @ post)"
proof (cases "\<exists>t \<in> set (tasks_arr s). strict_eq (task_id t) x")
  case True
  from remove_present [OF True] obtain pre t post where
    h: "tasks_arr s = pre @ t # post" "strict_eq (task_id t) x"
       "\<forall>u \<in> set pre. \<not> strict_eq (task_id u) x"
       "remove x s = (True, s\<lparr>arrays := (arrays s)(tasks s := pre @ post)\<rparr>)"
    by blast
  from h(4) have "fst (remove x s) = True \<and> tasks_arr (snd (remove x s)) = pre @ post"
    by (simp add: tasks_arr_def)
  with h show ?thesis by blast
next
  case False
  then have "\<forall>t \<in> set (tasks_arr s). \<not> strict_eq (task_id t) x" by blast
  with remove_absent [OF this] show ?thesis by blast
qed

lemma getAll_tasks_arr: "tasks_arr (snd (getAll s)) = tasks_arr s"
  by (simp add: getAll_def tasks_arr_def)

lemma repo_inv_init: "repo_inv init"
  by (simp add: repo_inv_def init_def tasks_arr_def)

lemma repo_inv_getAll: "repo_inv s \<Longrightarrow> repo_inv (snd (getAll s))"
  by (simp add: repo_inv_def getAll_tasks_arr getAll_store)

lemma repo_inv_create: "repo_inv s \<Longrightarrow> repo_inv (snd (create d s))"
  by (fastforce simp: repo_inv_def create_store)

lemma repo_inv_reset: "repo_inv (reset s)"
  by (simp add: repo_inv_def reset_store)

lemma repo_inv_remove:
  assumes "repo_inv s"
  shows "repo_inv (snd (remove x s))"
proof -
  from remove_cases [of x s] show ?thesis
  proof
    assume "remove x s = (False, s) \<and> (\<forall>t \<in> set (tasks_arr s). \<not> strict_eq (task_id t) x)"
    with assms show ?thesis by simp
  next
    assume "\<exists>pre t post. tasks_arr s = pre @ t # post \<and> strict_eq (task_id t) x \<and>
      (\<forall>u \<in> set pre. \<not> strict_eq (task_id u) x) \<and>
      fst (remove x s) = True \<and> tasks_arr (snd (remove x s)) = pre @ post"
    then obtain pre t post where
      h: "tasks_arr s = pre @ t # post" "tasks_arr (snd (remove x s)) = pre @ post"
      by blast
    from assms h show ?thesis
      by (auto simp: repo_inv_def remove_fields)
  qed
qed

lemma repo_inv_exec: "repo_inv s \<Longrightarrow> repo_inv (snd (exec c s))"
  by (cases c) (simp_all add: repo_inv_getAll repo_inv_create repo_inv_remove repo_inv_reset)

lemma reachable_inv: "reachable s \<Longrightarrow> repo_inv s"
  by (induction rule: reachable.induct) (simp_all add: repo_inv_init repo_inv_exec)

lemma allocated_exec: "allocated s \<Longrightarrow> allocated (snd (exec c s))"
  by (cases c) (simp_all add: allocated_def getAll_store create_store remove_fields reset_store)

lemma reachable_allocated: "reachable s \<Longrightarrow> allocated s"
  by (induction rule: reachable.induct) (simp_all add: allocated_exec, simp add: allocated_def init_def)

lemma reachable_run: "reachable s \<Longrightarrow> reachable (snd (run cs s))"
  by (induction cs arbitrary: s) (simp_all add: reachable_exec)

lemma run_append:
  "run (cs @ ds) s =
     (fst (run cs s) @ fst (run ds (snd (run cs s))), snd (run ds (snd (run cs s))))"
  by (induction cs arbitrary: s) simp_all

text \<open>Without \<open>reset\<close> the counter never goes down, and every id handed out lies
  between the counter before and the counter after.\<close>

lemma exec_nextId_mono: "c \<noteq> Reset \<Longrightarrow> nextId s \<le> nextId (snd (exec c s))"
  by (cases c) (simp_all add: getAll_store create_store remove_fields)

lemma run_nextId_mono: "Reset \<notin> set cs \<Longrightarrow> nextId s \<le> nextId (snd (run cs s))"
proof (induction cs arbitrary: s)
  case Nil
  show ?case by simp
next
  case (Cons c cs)
  then have "c \<noteq> Reset" and "Reset \<notin> set cs" by auto
  from exec_nextId_mono [OF this(1)] Cons.IH [OF this(2)]
  have "nextId s \<le> nextId (snd (exec c s))"
    and "nextId (snd (exec c s)) \<le> nextId (snd (run cs (snd (exec c s))))" by blast+
  then show ?case by simp
qed

lemma created_ids_lower:
  "Reset \<notin> set cs \<Longrightarrow> \<forall>i \<in> set (created_ids (fst (run cs s))). nextId s \<le> i"
proof (induction cs arbitrary: s)
  case Nil
  show ?case by simp
next
  case (Cons c cs)
  then have ne: "c \<noteq> Reset" and rest: "Reset \<notin> set cs" by auto
  have later: "\<forall>i \<in> set (created_ids (fst (run cs (snd (exec c s))))). nextId s \<le> i"
    using Cons.IH [OF rest, of "snd (exec c s)"] exec_nextId_mono [OF ne, of s] by fastforce
  show ?case
    using later by (cases c) (simp_all add: create_store)
qed

lemma created_ids_sorted:
  "Reset \<notin> set cs \<Longrightarrow> sorted_wrt (<) (created_ids (fst (run cs s)))"
proof (induction cs arbitrary: s)
  case Nil
  show ?case by simp
next
  case (Cons c cs)
  then have rest: "Reset \<notin> set cs" by auto
  note ih = Cons.IH [OF rest, of "snd (exec c s)"]
  show ?case
  proof (cases c)
    case (Create d)
    have "\<forall>i \<in> set (created_ids (fst (run cs (snd (create d s))))). nextId s + 1 \<le> i"
      using created_ids_lower [OF rest, of "snd (create d s)"] by (simp add: create_store)
    then have "\<forall>i \<in> set (created_ids (fst (run cs (snd (create d s))))). nextId s < i"
      by auto
    with ih Create show ?thesis by (simp add: create_store)
  qed (use ih in simp_all)
qed

lemma getAll_tasks_eq: "getAll_tasks s = tasks_arr s"
  by (simp add: getAll_tasks_def getAll_def)

lemma sorted_remove:
  "sorted_wrt (<) (map task_id (tasks_arr s)) \<Longrightarrow>
   sorted_wrt (<) (map task_id (tasks_arr (snd (remove x s))))"
  using remove_cases [of x s] by (auto simp: sorted_wrt_append)

lemma reachable_sorted: "reachable s \<Longrightarrow> sorted_wrt (<) (map task_id (tasks_arr s))"
proof (induction rule: reachable.induct)
  case reachable_init
  show ?case by (simp add: init_def tasks_arr_def)
next
  case (reachable_exec s c)
  from reachable_exec.hyps have inv: "repo_inv s" by (rule reachable_inv)
  show ?case
  proof (cases c)
    case GetAll
    with reachable_exec.IH show ?thesis by (simp add: getAll_tasks_arr)
  next
    case (Create d)
    with reachable_exec.IH inv show ?thesis
      by (auto simp: create_store sorted_wrt_append repo_inv_def)
  next
    case (Remove x)
    with reachable_exec.IH show ?thesis by (simp add: sorted_remove)
  next
    case Reset
    then show ?thesis by (simp add: reset_store)
  qed
qed

lemmas repo_eval =
  init_def tasks_arr_def getAll_def getAll_tasks_def create_def reset_def remove_def
  splice_arr_def Let_def

text \<open>
  Claim C9. The initial store (empty, \<open>nextId = 1\<close>) satisfies the invariant that every
  stored id is strictly below the counter and that the stored ids are pairwise distinct,
  and each of \<open>getAll\<close>, \<open>create\<close>, \<open>remove\<close> and \<open>reset\<close> leads from a state that
  satisfies it to a state that satisfies it.
\<close>

theorem repo_inv_preserved:
  "tasks_arr (init :: 'd repo) = [] \<and> nextId (init :: 'd repo) = 1 \<and>
   repo_inv (init :: 'd repo) \<and>
   (repo_inv s \<longrightarrow>
      repo_inv (snd (getAll s)) \<and> repo_inv (snd (create d s)) \<and>
      repo_inv (snd (remove x s)) \<and> repo_inv (reset (s :: 'd repo)))"
  by (simp add: repo_inv_init repo_inv_getAll repo_inv_create repo_inv_remove repo_inv_reset)
    (simp add: init_def tasks_arr_def)

theorem repo_inv_preserved_witness:
  "repo_inv (init :: string repo) \<and>
   repo_inv (snd (create ''walk'' (init :: string repo))) \<and>
   repo_inv (snd (getAll (snd (create ''walk'' (init :: string repo))))) \<and>
   repo_inv (snd (create ''read'' (snd (create ''walk'' (init :: string repo))))) \<and>
   repo_inv (snd (remove (Num 1) (snd (create ''walk'' (init :: string repo))))) \<and>
   repo_inv (reset (snd (create ''walk'' (init :: string repo))))"
proof -
  have h: "repo_inv (snd (create ''walk'' (init :: string repo)))"
    by (simp add: repo_inv_def repo_eval)
  from repo_inv_preserved [of "snd (create ''walk'' (init :: string repo))" "''read''" "Num 1"] h
  show ?thesis by simp
qed

lemma remove_True_present:
  "fst (remove x s) \<Longrightarrow> \<exists>t \<in> set (tasks_arr s). strict_eq (task_id t) x"
  using remove_cases [of x s] by auto

text \<open>
  Claim C1. In every sequence of repository calls without \<open>reset\<close>, started in any
  state the process can be in, the ids that the \<open>create\<close> calls return are strictly
  increasing and pairwise distinct; none of them is the id of a task that was in the
  store at the start, and once \<open>remove\<close> has deleted the task of an id, no later
  \<open>create\<close> of the sequence returns that id.
\<close>

theorem create_ids_increasing:
  assumes "reachable s" and "Reset \<notin> set cs"
  shows "sorted_wrt (<) (created_ids (fst (run cs s))) \<and>
         distinct (created_ids (fst (run cs s))) \<and>
         (\<forall>t \<in> set (tasks_arr s). task_id t \<notin> set (created_ids (fst (run cs s)))) \<and>
         (\<forall>cs1 i cs2. cs = cs1 @ Remove (Num i) # cs2 \<longrightarrow>
            fst (remove (Num i) (snd (run cs1 s))) \<longrightarrow>
            i \<notin> set (created_ids (fst (run cs2 (snd (run (cs1 @ [Remove (Num i)]) s))))))"
proof -
  have sorted: "sorted_wrt (<) (created_ids (fst (run cs s)))"
    using assms(2) by (rule created_ids_sorted)
  then have dist: "distinct (created_ids (fst (run cs s)))"
    by (simp add: strict_sorted_iff)
  have stored: "\<forall>t \<in> set (tasks_arr s). task_id t \<notin> set (created_ids (fst (run cs s)))"
  proof
    fix t assume "t \<in> set (tasks_arr s)"
    with reachable_inv [OF assms(1)] have "task_id t < nextId s" by (simp add: repo_inv_def)
    with created_ids_lower [OF assms(2), of s]
    show "task_id t \<notin> set (created_ids (fst (run cs s)))" by fastforce
  qed
  have removed: "i \<notin> set (created_ids (fst (run cs2 (snd (run (cs1 @ [Remove (Num i)]) s)))))"
    if split: "cs = cs1 @ Remove (Num i) # cs2"
      and del: "fst (remove (Num i) (snd (run cs1 s)))" for cs1 i cs2
  proof -
    let ?s1 = "snd (run cs1 s)"
    let ?s2 = "snd (run (cs1 @ [Remove (Num i)]) s)"
    have s2: "?s2 = snd (remove (Num i) ?s1)" by (simp add: run_append)
    from split assms(2) have free: "Reset \<notin> set cs2" by simp
    from reachable_run [OF assms(1)] have "repo_inv ?s1" by (rule reachable_inv)
    moreover from remove_True_present [OF del]
    obtain t where "t \<in> set (tasks_arr ?s1)" "task_id t = i" by auto
    ultimately have "i < nextId ?s1" by (auto simp: repo_inv_def)
    then have "i < nextId ?s2" by (simp add: s2 remove_fields)
    with created_ids_lower [OF free, of ?s2] show ?thesis by fastforce
  qed
  from sorted dist stored removed show ?thesis by blast
qed

theorem create_ids_increasing_witness:
  "reachable (snd (run [Create ''milk'', Create ''eggs''] (init :: string repo))) \<and>
   Reset \<notin> set [Create ''tea'', Remove (Num 2), Create ''jam'', GetAll, Create ''rice''] \<and>
   created_ids (fst (run [Create ''tea'', Remove (Num 2), Create ''jam'', GetAll, Create ''rice'']
     (snd (run [Create ''milk'', Create ''eggs''] (init :: string repo))))) = [3, 4, 5] \<and>
   sorted_wrt (<) (created_ids (fst (run
     [Create ''tea'', Remove (Num 2), Create ''jam'', GetAll, Create ''rice'']
     (snd (run [Create ''milk'', Create ''eggs''] (init :: string repo)))))) \<and>
   distinct (created_ids (fst (run
     [Create ''tea'', Remove (Num 2), Create ''jam'', GetAll, Create ''rice'']
     (snd (run [Create ''milk'', Create ''eggs''] (init :: string repo))))))"
proof -
  let ?s = "snd (run [Create ''milk'', Create ''eggs''] (init :: string repo))"
  let ?cs = "[Create ''tea'', Remove (Num 2), Create ''jam'', GetAll, Create ''rice'']"
  have r: "reachable ?s" by (rule reachable_run [OF reachable_init])
  have f: "Reset \<notin> set ?cs" by simp
  have v: "created_ids (fst (run ?cs ?s)) = [3, 4, 5]" by (simp add: repo_eval)
  from create_ids_increasing [OF r f] r f v show ?thesis by blast
qed

text \<open>
  Claim C5. In every state the process can be in and for every id: when a stored task
  has the id, \<open>remove\<close> returns true, the store holds exactly one task less, and no
  task that \<open>getAll\<close> then returns has the id; when no stored task has the id,
  \<open>remove\<close> returns false and the whole state (contents, order, counter) is the
  same as before.
\<close>

theorem remove_present_absent:
  assumes "reachable s"
  shows "((\<exists>t \<in> set (tasks_arr s). strict_eq (task_id t) x) \<longrightarrow>
            fst (remove x s) = True \<and>
            length (tasks_arr (snd (remove x s))) + 1 = length (tasks_arr s) \<and>
            (\<forall>t \<in> set (getAll_tasks (snd (remove x s))). \<not> strict_eq (task_id t) x)) \<and>
         (\<not> (\<exists>t \<in> set (tasks_arr s). strict_eq (task_id t) x) \<longrightarrow>
            remove x s = (False, s))"
proof (cases "\<exists>t \<in> set (tasks_arr s). strict_eq (task_id t) x")
  case False
  then have "remove x s = (False, s)" by (simp add: remove_absent)
  with False show ?thesis by simp
next
  case True
  from remove_present [OF True] obtain pre t post where
    h: "tasks_arr s = pre @ t # post" "strict_eq (task_id t) x"
       "\<forall>u \<in> set pre. \<not> strict_eq (task_id u) x"
       "remove x s = (True, s\<lparr>arrays := (arrays s)(tasks s := pre @ post)\<rparr>)"
    by blast
  from h(4) have after: "tasks_arr (snd (remove x s)) = pre @ post"
    by (simp add: tasks_arr_def)
  from reachable_inv [OF assms] h(1) have d: "task_id t \<notin> task_id ` set post"
    by (simp add: repo_inv_def)
  have gone: "\<not> strict_eq (task_id u) x" if "u \<in> set (pre @ post)" for u
  proof (cases "u \<in> set pre")
    case True
    with h(3) show ?thesis by blast
  next
    case False
    with that have "u \<in> set post" by simp
    with d have "task_id u \<noteq> task_id t" by (auto simp: image_iff)
    with h(2) show ?thesis by (cases x) simp_all
  qed
  from h(4) have "fst (remove x s) = True" by simp
  moreover from after h(1) have "length (tasks_arr (snd (remove x s))) + 1 = length (tasks_arr s)"
    by simp
  moreover from gone after
  have "\<forall>t \<in> set (getAll_tasks (snd (remove x s))). \<not> strict_eq (task_id t) x"
    by (simp add: getAll_tasks_eq)
  ultimately show ?thesis using True by blast
qed

theorem remove_present_absent_witness:
  "reachable (snd (run [Create ''milk'', Create ''eggs'', Create ''tea''] (init :: string repo))) \<and>
   fst (remove (Num 2)
     (snd (run [Create ''milk'', Create ''eggs'', Create ''tea''] (init :: string repo)))) = True \<and>
   length (tasks_arr (snd (remove (Num 2)
     (snd (run [Create ''milk'', Create ''eggs'', Create ''tea''] (init :: string repo)))))) + 1 =
   length (tasks_arr
     (snd (run [Create ''milk'', Create ''eggs'', Create ''tea''] (init :: string repo)))) \<and>
   map task_id (getAll_tasks (snd (remove (Num 2)
     (snd (run [Create ''milk'', Create ''eggs'', Create ''tea''] (init :: string repo)))))) = [1, 3] \<and>
   remove (Num 7)
     (snd (run [Create ''milk'', Create ''eggs'', Create ''tea''] (init :: string repo))) =
   (False, snd (run [Create ''milk'', Create ''eggs'', Create ''tea''] (init :: string repo))) \<and>
   remove NaN
     (snd (run [Create ''milk'', Create ''eggs'', Create ''tea''] (init :: string repo))) =
   (False, snd (run [Create ''milk'', Create ''eggs'', Create ''tea''] (init :: string repo)))"
proof -
  let ?s = "snd (run [Create ''milk'', Create ''eggs'', Create ''tea''] (init :: string repo))"
  have r: "reachable ?s" by (rule reachable_run [OF reachable_init])
  have arr: "map task_id (tasks_arr ?s) = [1, 2, 3]" by (simp add: repo_eval)
  have p2: "\<exists>t \<in> set (tasks_arr ?s). strict_eq (task_id t) (Num 2)"
    and p7: "\<not> (\<exists>t \<in> set (tasks_arr ?s). strict_eq (task_id t) (Num 7))"
    and pn: "\<not> (\<exists>t \<in> set (tasks_arr ?s). strict_eq (task_id t) NaN)"
    by (simp_all add: repo_eval)
  have ids: "map task_id (getAll_tasks (snd (remove (Num 2) ?s))) = [1, 3]"
    by (simp add: repo_eval)
  from remove_present_absent [OF r, of "Num 2"] remove_present_absent [OF r, of "Num 7"]
    remove_present_absent [OF r, of NaN] p2 p7 pn r ids
  show ?thesis by blast
qed

text \<open>
  Claim C10. For every state and every id, \<open>remove\<close> either leaves the array of tasks
  as it is, or takes out exactly one task, the first whose id matches; the tasks that
  remain keep their relative order, so an array in ascending order of ids (the order
  of insertion) stays so.
\<close>

theorem remove_keeps_order:
  "((fst (remove x s) = False \<and> tasks_arr (snd (remove x s)) = tasks_arr s) \<or>
    (\<exists>pre t post. tasks_arr s = pre @ t # post \<and> strict_eq (task_id t) x \<and>
       (\<forall>u \<in> set pre. \<not> strict_eq (task_id u) x) \<and>
       fst (remove x s) = True \<and> tasks_arr (snd (remove x s)) = pre @ post)) \<and>
   subseq (tasks_arr (snd (remove x s))) (tasks_arr s) \<and>
   length (tasks_arr s) \<le> length (tasks_arr (snd (remove x s))) + 1 \<and>
   (sorted_wrt (<) (map task_id (tasks_arr s)) \<longrightarrow>
      sorted_wrt (<) (map task_id (tasks_arr (snd (remove x s)))))"
proof -
  have cases: "(fst (remove x s) = False \<and> tasks_arr (snd (remove x s)) = tasks_arr s) \<or>
    (\<exists>pre t post. tasks_arr s = pre @ t # post \<and> strict_eq (task_id t) x \<and>
       (\<forall>u \<in> set pre. \<not> strict_eq (task_id u) x) \<and>
       fst (remove x s) = True \<and> tasks_arr (snd (remove x s)) = pre @ post)"
    using remove_cases [of x s] by auto
  then have sub: "subseq (tasks_arr (snd (remove x s))) (tasks_arr s)"
  proof
    assume "fst (remove x s) = False \<and> tasks_arr (snd (remove x s)) = tasks_arr s"
    then show ?thesis by simp
  next
    assume "\<exists>pre t post. tasks_arr s = pre @ t # post \<and> strict_eq (task_id t) x \<and>
       (\<forall>u \<in> set pre. \<not> strict_eq (task_id u) x) \<and>
       fst (remove x s) = True \<and> tasks_arr (snd (remove x s)) = pre @ post"
    then obtain pre t post where
      "tasks_arr s = pre @ t # post" "tasks_arr (snd (remove x s)) = pre @ post" by blast
    moreover have "subseq (pre @ post) (pre @ t # post)"
      by (rule list_emb_append_mono) auto
    ultimately show ?thesis by simp
  qed
  from cases have len: "length (tasks_arr s) \<le> length (tasks_arr (snd (remove x s))) + 1"
    by auto
  from cases sub len sorted_remove [of s x] show ?thesis by blast
qed

theorem remove_keeps_order_witness:
  "map task_id (tasks_arr
     (snd (run [Create ''milk'', Create ''eggs'', Create ''tea''] (init :: string repo)))) =
     [1, 2, 3] \<and>
   map task_id (tasks_arr (snd (remove (Num 2)
     (snd (run [Create ''milk'', Create ''eggs'', Create ''tea''] (init :: string repo)))))) =
     [1, 3] \<and>
   subseq (tasks_arr (snd (remove (Num 2)
       (snd (run [Create ''milk'', Create ''eggs'', Create ''tea''] (init :: string repo))))))
     (tasks_arr
       (snd (run [Create ''milk'', Create ''eggs'', Create ''tea''] (init :: string repo)))) \<and>
   sorted_wrt (<) (map task_id (tasks_arr (snd (remove (Num 2)
     (snd (run [Create ''milk'', Create ''eggs'', Create ''tea''] (init :: string repo)))))))"
proof -
  let ?s = "snd (run [Create ''milk'', Create ''eggs'', Create ''tea''] (init :: string repo))"
  have a: "map task_id (tasks_arr ?s) = [1, 2, 3]" by (simp add: repo_eval)
  have b: "map task_id (tasks_arr (snd (remove (Num 2) ?s))) = [1, 3]" by (simp add: repo_eval)
  from a have c: "sorted_wrt (<) (map task_id (tasks_arr ?s))" by simp
  from remove_keeps_order [of "Num 2" ?s] a b c show ?thesis by blast
qed

lemma create_after_run_id:
  "Reset \<notin> set mid \<Longrightarrow>
   task_id (fst (create d1 s)) < task_id (fst (create d2 (snd (run mid (snd (create d1 s))))))"
proof -
  assume "Reset \<notin> set mid"
  from run_nextId_mono [OF this, of "snd (create d1 s)"]
  show ?thesis by (simp add: create_store)
qed

text \<open>
  Claim C6. After \<open>reset\<close>, from any state, the store is empty, \<open>getAll\<close>
  returns the empty sequence, the counter is 1 and the next \<open>create\<close> returns id 1.
  No other call lowers the counter, and whenever a \<open>create\<close> returns the id that
  an earlier \<open>create\<close> returned, a \<open>reset\<close> was called between the two.
\<close>

theorem reset_restarts:
  "tasks_arr (reset s) = [] \<and> getAll_tasks (reset s) = [] \<and> nextId (reset s) = 1 \<and>
   task_id (fst (create d (reset s))) = 1 \<and>
   (\<forall>c. c \<noteq> Reset \<longrightarrow> nextId s \<le> nextId (snd (exec c s))) \<and>
   (\<forall>d1 mid d2.
      task_id (fst (create d2 (snd (run mid (snd (create d1 s)))))) = task_id (fst (create d1 s))
      \<longrightarrow> Reset \<in> set mid)"
proof -
  have "Reset \<in> set mid"
    if "task_id (fst (create d2 (snd (run mid (snd (create d1 s)))))) = task_id (fst (create d1 s))"
    for d1 mid d2
  proof (rule ccontr)
    assume "Reset \<notin> set mid"
    from create_after_run_id [OF this, of d1 s d2] that show False by simp
  qed
  then show ?thesis
    by (simp add: reset_store getAll_tasks_eq create_store exec_nextId_mono)
qed

theorem reset_restarts_witness:
  "tasks_arr (reset (snd (run [Create ''milk'', Create ''eggs''] (init :: string repo)))) = [] \<and>
   getAll_tasks (reset (snd (run [Create ''milk'', Create ''eggs''] (init :: string repo)))) = [] \<and>
   nextId (reset (snd (run [Create ''milk'', Create ''eggs''] (init :: string repo)))) = 1 \<and>
   task_id (fst (create ''tea''
     (reset (snd (run [Create ''milk'', Create ''eggs''] (init :: string repo)))))) = 1 \<and>
   task_id (fst (create ''milk'' (init :: string repo))) = 1 \<and>
   task_id (fst (create ''tea'' (snd (run [Create ''eggs'', Reset]
     (snd (create ''milk'' (init :: string repo))))))) = 1 \<and>
   Reset \<in> set [Create ''eggs'', Reset :: string call] \<and>
   nextId (snd (run [Create ''milk'', Create ''eggs''] (init :: string repo))) \<le>
     nextId (snd (exec (Remove (Num 1))
       (snd (run [Create ''milk'', Create ''eggs''] (init :: string repo)))))"
proof -
  let ?s = "snd (run [Create ''milk'', Create ''eggs''] (init :: string repo))"
  have a: "task_id (fst (create ''milk'' (init :: string repo))) = 1"
    and b: "task_id (fst (create ''tea'' (snd (run [Create ''eggs'', Reset]
     (snd (create ''milk'' (init :: string repo))))))) = 1"
    by (simp_all add: repo_eval)
  have c: "Remove (Num 1) \<noteq> (Reset :: string call)" by simp
  from reset_restarts [of ?s "''tea''"]
  have e: "tasks_arr (reset ?s) = []" "getAll_tasks (reset ?s) = []" "nextId (reset ?s) = 1"
    "task_id (fst (create ''tea'' (reset ?s))) = 1"
    "\<forall>c. c \<noteq> Reset \<longrightarrow> nextId ?s \<le> nextId (snd (exec c ?s))"
    by blast+
  from e(5) c have "nextId ?s \<le> nextId (snd (exec (Remove (Num 1)) ?s))" by blast
  with e a b show ?thesis by simp
qed

text \<open>
  Claim C7, as the code has it. \<open>create(d)\<close> followed immediately by \<open>getAll\<close>
  yields the tasks stored before, followed by the created task, whose description is
  \<open>d\<close>; the sequence holds exactly one more task of description \<open>d\<close> than the store
  held before the call, hence exactly one when no stored task had description \<open>d\<close>.
\<close>

theorem create_then_getAll:
  "getAll_tasks (snd (create d s)) = tasks_arr s @ [fst (create d s)] \<and>
   description (fst (create d s)) = d \<and>
   count_list (map description (getAll_tasks (snd (create d s)))) d =
     count_list (map description (tasks_arr s)) d + 1 \<and>
   (d \<notin> description ` set (tasks_arr s) \<longrightarrow>
      count_list (map description (getAll_tasks (snd (create d s)))) d = 1)"
proof -
  have "d \<notin> description ` set (tasks_arr s) \<Longrightarrow> count_list (map description (tasks_arr s)) d = 0"
    by (simp add: count_list_0_iff)
  then show ?thesis
    by (simp add: getAll_tasks_eq create_store)
qed

theorem create_then_getAll_witness:
  "''tea'' \<notin> description ` set (tasks_arr (snd (create ''milk'' (init :: string repo)))) \<and>
   map description (getAll_tasks (snd (create ''tea'' (snd (create ''milk'' (init :: string repo))))))
     = [''milk'', ''tea''] \<and>
   count_list (map description
     (getAll_tasks (snd (create ''tea'' (snd (create ''milk'' (init :: string repo))))))) ''tea'' = 1"
proof -
  let ?s = "snd (create ''milk'' (init :: string repo))"
  have a: "''tea'' \<notin> description ` set (tasks_arr ?s)" by (simp add: repo_eval)
  have b: "map description (getAll_tasks (snd (create ''tea'' ?s))) = [''milk'', ''tea'']"
    by (simp add: repo_eval)
  from create_then_getAll [of "''tea''" ?s] a b show ?thesis by blast
qed

text \<open>
  Claim C7 as stated fails: after \<open>create(''tea'')\<close> twice, \<open>getAll\<close> returns two
  tasks whose description is \<open>''tea''\<close>.
\<close>

theorem create_twice_counterexample:
  "\<not> count_list (map description
       (getAll_tasks (snd (create ''tea'' (snd (create ''tea'' (init :: string repo))))))) ''tea'' = 1"
  by (simp add: repo_eval)

text \<open>
  Claim C8. In every state the process can be in, \<open>getAll\<close> returns a reference that
  was not allocated before, so not the array the store keeps; the new array holds the
  stored tasks in the order of the store, which is the order of insertion, ascending
  by id. The variables \<open>tasks\<close> and \<open>nextId\<close> and every array allocated before are
  as they were, and whatever is later written into the returned array leaves the
  store's array alone. \<open>getAll\<close> has no failing branch: it is a total function.
\<close>

theorem getAll_snapshot:
  assumes "reachable s"
  shows "fst (getAll s) \<noteq> tasks s \<and> fresh s \<le> fst (getAll s) \<and>
         fst (getAll s) < fresh (snd (getAll s)) \<and>
         arrays (snd (getAll s)) (fst (getAll s)) = tasks_arr s \<and>
         sorted_wrt (<) (map task_id (tasks_arr s)) \<and>
         tasks (snd (getAll s)) = tasks s \<and> nextId (snd (getAll s)) = nextId s \<and>
         tasks_arr (snd (getAll s)) = tasks_arr s \<and>
         (\<forall>r. r < fresh s \<longrightarrow> arrays (snd (getAll s)) r = arrays s r) \<and>
         (\<forall>xs. tasks_arr ((snd (getAll s))
                  \<lparr>arrays := (arrays (snd (getAll s)))(fst (getAll s) := xs)\<rparr>) = tasks_arr s)"
proof -
  from reachable_allocated [OF assms] have a: "tasks s < fresh s" by (simp add: allocated_def)
  then have "tasks s \<noteq> fresh s" by simp
  with a reachable_sorted [OF assms] show ?thesis
    by (simp add: getAll_store getAll_tasks_arr) (simp add: tasks_arr_def getAll_store)
qed

theorem getAll_snapshot_witness:
  "reachable (snd (run [Create ''milk'', Create ''eggs''] (init :: string repo))) \<and>
   fst (getAll (snd (run [Create ''milk'', Create ''eggs''] (init :: string repo)))) = 1 \<and>
   tasks (snd (run [Create ''milk'', Create ''eggs''] (init :: string repo))) = 0 \<and>
   map task_id (arrays (snd (getAll (snd (run [Create ''milk'', Create ''eggs'']
     (init :: string repo))))) 1) = [1, 2] \<and>
   tasks_arr (snd (getAll (snd (run [Create ''milk'', Create ''eggs''] (init :: string repo))))) =
     tasks_arr (snd (run [Create ''milk'', Create ''eggs''] (init :: string repo))) \<and>
   nextId (snd (getAll (snd (run [Create ''milk'', Create ''eggs''] (init :: string repo))))) = 3"
proof -
  let ?s = "snd (run [Create ''milk'', Create ''eggs''] (init :: string repo))"
  have r: "reachable ?s" by (rule reachable_run [OF reachable_init])
  have v: "fst (getAll ?s) = 1" "tasks ?s = 0" "nextId ?s = 3"
    "map task_id (tasks_arr ?s) = [1, 2]"
    by (simp_all add: repo_eval)
  from getAll_snapshot [OF r] r v show ?thesis by simp
qed

section \<open>Properties of the routes\<close>

lemma auth_state: "snd (auth verify req s) = s"
  by (simp add: auth_def split: option.splits)

lemma auth_outcome:
  "fst (auth verify req s) = Next \<or>
   (\<exists>r. fst (auth verify req s) = Respond r \<and> status r = 401)"
  by (simp add: auth_def split: option.splits)

lemma auth_passes_iff:
  "fst (auth verify req s) = Next \<longleftrightarrow>
   (\<exists>token. authorization req = Some token \<and> token \<noteq> [] \<and> verify token)"
  by (auto simp: auth_def split: option.splits)

lemma auth_reads_header_only:
  "fst (auth verify (req\<lparr>body := b, id_param := p\<rparr>) s) = fst (auth verify req s)"
  by (simp add: auth_def split: option.splits)

lemma respond_auth_rejects:
  "fst (auth verify req s) = Respond r \<Longrightarrow> respond (auth verify # rest) req s = (r, s)"
  by (simp add: respond_def auth_state)

lemma run_chain_auth_passes:
  "fst (auth verify req s) = Next \<Longrightarrow> run_chain (auth verify # rest) req s = run_chain rest req s"
  by (simp add: auth_state)

lemma respond_auth_passes:
  "fst (auth verify req s) = Next \<Longrightarrow> respond (auth verify # rest) req s = respond rest req s"
  by (simp only: respond_def run_chain_auth_passes)

lemma respond_single:
  "respond [h] req s =
     (case fst (h req s) of
        Respond r \<Rightarrow> (r, snd (h req s))
      | NextErr err \<Rightarrow> (error_handler err, snd (h req s))
      | Next \<Rightarrow> (\<lparr>status = 404, payload = NotFoundPage\<rparr>, snd (h req s)))"
  by (simp add: respond_def split: outcome.splits)

text \<open>The three ways the create handler ends.\<close>

lemma create_handler_cases:
  "(create_handler conv req s = (NextErr TypeError, s)) \<or>
   (\<exists>r. create_handler conv req s = (Respond r, s) \<and> status r = 400) \<or>
   (\<exists>descr. create_handler conv req s =
      (Respond \<lparr>status = 201, payload = OneTask (fst (create descr s))\<rparr>, snd (create descr s)))"
proof -
  have e: "err = TypeError" for err by (cases err) simp
  show ?thesis
    by (auto simp: create_handler_def Let_def e split: sum.splits)
qed

text \<open>\<open>create\<close> always moves the counter: a state that is the same after a request
  shows that the request did not call \<open>create\<close>.\<close>

lemma create_changes_state: "snd (create d s) \<noteq> s"
proof
  assume "snd (create d s) = s"
  then have "nextId (snd (create d s)) = nextId s" by simp
  then show False by (simp add: create_store)
qed

lemma delete_handler_cases:
  "delete_handler req s =
     (if fst (remove (parseInt (id_param req)) s)
      then (Respond \<lparr>status = 204, payload = Empty\<rparr>, snd (remove (parseInt (id_param req)) s))
      else (Respond \<lparr>status = 404, payload = ErrorText ''Task not found''\<rparr>, s))"
proof (cases "fst (remove (parseInt (id_param req)) s)")
  case True
  then show ?thesis by (simp add: delete_handler_def Let_def)
next
  case False
  then have "\<forall>t \<in> set (tasks_arr s). \<not> strict_eq (task_id t) (parseInt (id_param req))"
    using remove_cases [of "parseInt (id_param req)" s] by auto
  from remove_absent [OF this] show ?thesis by (simp add: delete_handler_def Let_def)
qed

lemma post_create_not_created:
  "status (fst (respond [create_handler conv] req s)) \<noteq> 201 \<Longrightarrow>
   snd (respond [create_handler conv] req s) = s"
  using create_handler_cases [of conv req s]
  by (auto simp: respond_single)












text \<open>
  Claim C4. On both authenticated routes the authentication middleware decides first:
  when it rejects a request, its 401 response is the response of the route whatever
  functions follow it in the chain, whatever the body and the id segment are, and the
  state is the one before the request. When it lets the request pass, the route handler
  runs on the unchanged state. On \<open>POST /create\<close> every response other than 201
  (rejected validation included) leaves the state as it was, and a 201 is sent only to
  an authenticated request; on \<open>DELETE /:id\<close> the state changes only for an
  authenticated request that is answered with 204.
\<close>

theorem auth_precedes_handlers:
  "(fst (auth verify req s) \<noteq> Next \<longrightarrow>
      (\<exists>r. fst (auth verify req s) = Respond r \<and> status r = 401 \<and>
           (\<forall>rest. respond (auth verify # rest) req s = (r, s)) \<and>
           post_create verify conv req s = (r, s) \<and>
           delete_id verify req s = (r, s) \<and>
           (\<forall>b p. post_create verify conv (req\<lparr>body := b, id_param := p\<rparr>) s = (r, s)) \<and>
           (\<forall>b p. delete_id verify (req\<lparr>body := b, id_param := p\<rparr>) s = (r, s)))) \<and>
   (fst (auth verify req s) = Next \<longrightarrow>
      post_create verify conv req s = respond [create_handler conv] req s \<and>
      delete_id verify req s = respond [delete_handler] req s) \<and>
   (status (fst (post_create verify conv req s)) \<noteq> 201 \<longrightarrow>
      snd (post_create verify conv req s) = s) \<and>
   (status (fst (post_create verify conv req s)) = 201 \<longrightarrow> fst (auth verify req s) = Next) \<and>
   (snd (delete_id verify req s) \<noteq> s \<longrightarrow>
      fst (auth verify req s) = Next \<and> status (fst (delete_id verify req s)) = 204)"
proof (cases "fst (auth verify req s) = Next")
  case True
  have pc: "post_create verify conv req s = respond [create_handler conv] req s"
    and dl: "delete_id verify req s = respond [delete_handler] req s"
    by (simp_all only: post_create_def delete_id_def respond_auth_passes [OF True])
  have unchanged: "status (fst (post_create verify conv req s)) \<noteq> 201 \<longrightarrow>
      snd (post_create verify conv req s) = s"
    by (simp add: pc post_create_not_created)
  have del: "snd (delete_id verify req s) \<noteq> s \<longrightarrow> status (fst (delete_id verify req s)) = 204"
    by (simp add: dl respond_single delete_handler_cases)
  from True pc dl unchanged del show ?thesis by simp
next
  case False
  with auth_outcome [of verify req s] obtain r where
    r: "fst (auth verify req s) = Respond r" "status r = 401" by blast
  have chain: "respond (auth verify # rest) req s = (r, s)" for rest
    using r(1) by (rule respond_auth_rejects)
  have other: "respond (auth verify # rest) (req\<lparr>body := b, id_param := p\<rparr>) s = (r, s)"
    for rest b p
  proof (rule respond_auth_rejects)
    show "fst (auth verify (req\<lparr>body := b, id_param := p\<rparr>) s) = Respond r"
      using r(1) by (simp add: auth_reads_header_only)
  qed
  from chain have pc: "post_create verify conv req s = (r, s)"
    and dl: "delete_id verify req s = (r, s)"
    by (simp_all only: post_create_def delete_id_def)
  from other have pc': "post_create verify conv (req\<lparr>body := b, id_param := p\<rparr>) s = (r, s)"
    and dl': "delete_id verify (req\<lparr>body := b, id_param := p\<rparr>) s = (r, s)" for b p
    by (simp_all only: post_create_def delete_id_def)
  from False r chain pc dl pc' dl' show ?thesis by auto
qed

theorem auth_precedes_handlers_witness:
  "fst (auth ((=) (js ''good''))
     \<lparr>authorization = None,
      body = JObj [(js ''task'', JObj [(js ''description'', JStr (js ''Test task''))])],
      id_param = js ''1''\<rparr> (snd (create (JStr (js ''tea'')) init))) \<noteq> Next \<and>
   post_create ((=) (js ''good'')) ((=) JNull)
     \<lparr>authorization = None,
      body = JObj [(js ''task'', JObj [(js ''description'', JStr (js ''Test task''))])],
      id_param = js ''1''\<rparr> (snd (create (JStr (js ''tea'')) init)) =
   (\<lparr>status = 401, payload = MessageText ''No token provided''\<rparr>,
    snd (create (JStr (js ''tea'')) init)) \<and>
   delete_id ((=) (js ''good''))
     \<lparr>authorization = None,
      body = JObj [(js ''task'', JObj [(js ''description'', JStr (js ''Test task''))])],
      id_param = js ''1''\<rparr> (snd (create (JStr (js ''tea'')) init)) =
   (\<lparr>status = 401, payload = MessageText ''No token provided''\<rparr>,
    snd (create (JStr (js ''tea'')) init)) \<and>
   fst (auth ((=) (js ''good''))
     \<lparr>authorization = Some (js ''good''), body = JObj [(js ''task'', JNull)],
      id_param = js ''1''\<rparr> (snd (create (JStr (js ''tea'')) init))) = Next \<and>
   status (fst (post_create ((=) (js ''good'')) ((=) JNull)
     \<lparr>authorization = Some (js ''good''), body = JObj [(js ''task'', JNull)],
      id_param = js ''1''\<rparr> (snd (create (JStr (js ''tea'')) init)))) = 400 \<and>
   snd (post_create ((=) (js ''good'')) ((=) JNull)
     \<lparr>authorization = Some (js ''good''), body = JObj [(js ''task'', JNull)],
      id_param = js ''1''\<rparr> (snd (create (JStr (js ''tea'')) init))) =
   snd (create (JStr (js ''tea'')) init)"
proof -
  define s where "s = snd (create (JStr (js ''tea'')) init)"
  define anon where "anon = \<lparr>authorization = None,
      body = JObj [(js ''task'', JObj [(js ''description'', JStr (js ''Test task''))])],
      id_param = js ''1''\<rparr>"
  define bad where "bad = \<lparr>authorization = Some (js ''good''), body = JObj [(js ''task'', JNull)],
      id_param = js ''1''\<rparr>"
  define v where "v = (=) (js ''good'')"
  define conv where "conv = (=) JNull"
  have a: "fst (auth v anon s) =
      Respond \<lparr>status = 401, payload = MessageText ''No token provided''\<rparr>"
    by (simp add: auth_def anon_def)
  then have a': "fst (auth v anon s) \<noteq> Next" by simp
  have b: "fst (auth v bad s) = Next"
    by (simp add: auth_def js_def bad_def v_def)
  have c: "status (fst (post_create v conv bad s)) = 400"
    by (simp add: post_create_def respond_def auth_def create_handler_def js_def bad_def v_def)
  note T = auth_precedes_handlers [of v anon s conv]
  from T [THEN conjunct1, THEN mp, OF a'] obtain r where
    r: "fst (auth v anon s) = Respond r" "post_create v conv anon s = (r, s)"
       "delete_id v anon s = (r, s)"
    by blast
  from r(1) a have "r = \<lparr>status = 401, payload = MessageText ''No token provided''\<rparr>" by simp
  with r have one: "post_create v conv anon s =
      (\<lparr>status = 401, payload = MessageText ''No token provided''\<rparr>, s)"
    and two: "delete_id v anon s =
      (\<lparr>status = 401, payload = MessageText ''No token provided''\<rparr>, s)"
    by simp_all
  note U = auth_precedes_handlers [of v bad s conv]
  from c have "status (fst (post_create v conv bad s)) \<noteq> 201" by simp
  from U [THEN conjunct2, THEN conjunct2, THEN conjunct1, THEN mp, OF this]
  have three: "snd (post_create v conv bad s) = s" .
  from a' one two b c three
  have "fst (auth v anon s) \<noteq> Next \<and>
    post_create v conv anon s =
      (\<lparr>status = 401, payload = MessageText ''No token provided''\<rparr>, s) \<and>
    delete_id v anon s =
      (\<lparr>status = 401, payload = MessageText ''No token provided''\<rparr>, s) \<and>
    fst (auth v bad s) = Next \<and>
    status (fst (post_create v conv bad s)) = 400 \<and>
    snd (post_create v conv bad s) = s"
    by (intro conjI)
  then show ?thesis
    unfolding s_def anon_def bad_def v_def conv_def .
qed





text \<open>\<open>GET /\<close> answers 200 with the stored tasks and leaves the store as it is.\<close>

lemma get_root_lists:
  "fst (get_root req s) = \<lparr>status = 200, payload = Tasks (tasks_arr s)\<rparr> \<and>
   tasks_arr (snd (get_root req s)) = tasks_arr s \<and> nextId (snd (get_root req s)) = nextId s"
  by (simp add: get_root_def respond_single list_handler_def Let_def getAll_store
      getAll_tasks_arr)

text \<open>
  \<open>POST /create\<close> on a body of the documented shape
  \<open>{ task: { description: string } }\<close>, from an authenticated request: a missing
  task, a missing description and a description of fewer than three code units are
  answered 400 with the state unchanged; a description of at least three code units is
  answered 201 with the created task, which carries the id the counter held.
\<close>

lemma post_create_text_description:
  assumes "fst (auth verify req s) = Next" and "body req = JObj kvs"
  shows "(map_of kvs (js ''task'') = None \<longrightarrow>
            status (fst (post_create verify conv req s)) = 400 \<and>
            snd (post_create verify conv req s) = s) \<and>
         (map_of kvs (js ''task'') = Some (JObj t) \<and> map_of t (js ''description'') = None \<longrightarrow>
            status (fst (post_create verify conv req s)) = 400 \<and>
            snd (post_create verify conv req s) = s) \<and>
         (map_of kvs (js ''task'') = Some (JObj t) \<and>
          map_of t (js ''description'') = Some (JStr d) \<and> length d < 3 \<longrightarrow>
            status (fst (post_create verify conv req s)) = 400 \<and>
            snd (post_create verify conv req s) = s) \<and>
         (map_of kvs (js ''task'') = Some (JObj t) \<and>
          map_of t (js ''description'') = Some (JStr d) \<and> 3 \<le> length d \<longrightarrow>
            post_create verify conv req s =
              (\<lparr>status = 201,
                payload = OneTask \<lparr>task_id = nextId s, description = JStr d\<rparr>\<rparr>,
               snd (create (JStr d) s)))"
proof -
  have route: "post_create verify conv req s = respond [create_handler conv] req s"
    by (simp only: post_create_def respond_auth_passes [OF assms(1)])
  have short: "length d < 3 \<Longrightarrow> d \<noteq> [] \<Longrightarrow> (of_nat (length d) :: rat) < 3"
    by (metis of_nat_less_iff of_nat_numeral)
  have long: "3 \<le> length d \<Longrightarrow> \<not> (of_nat (length d) :: rat) < 3 \<and> d \<noteq> []"
    by (metis length_0_conv not_less not_numeral_le_zero of_nat_less_iff of_nat_numeral)
  show ?thesis
    using short long
    by (auto simp: route respond_single create_handler_def assms(2) Let_def create_store)
qed

text \<open>
  Claim C2 fails on a description that is not a string. An authenticated
  \<open>POST /create\<close> with the body \<open>{"task": {"description": 7}}\<close> passes both checks
  (\<open>7\<close> is truthy, \<open>(7).length\<close> is \<open>undefined\<close>, and \<open>undefined < 3\<close> is false):
  it is answered 201, and the task stored has the number 7 as its description, which
  has no length of at least 3.
\<close>

theorem post_create_number_description:
  "post_create ((=) (js ''good'')) conv
     \<lparr>authorization = Some (js ''good''),
      body = JObj [(js ''task'', JObj [(js ''description'', JNum 7)])],
      id_param = []\<rparr> init =
   (\<lparr>status = 201, payload = OneTask \<lparr>task_id = 1, description = JNum 7\<rparr>\<rparr>,
    snd (create (JNum 7) init)) \<and>
   get_prop (JNum 7) Prop_length = Inr JUndefined \<and>
   map description (tasks_arr (snd (create (JNum 7) init))) = [JNum 7]"
proof -
  define v where "v = (=) (js ''good'')"
  define req where "req = \<lparr>authorization = Some (js ''good''),
      body = JObj [(js ''task'', JObj [(js ''description'', JNum 7)])],
      id_param = []\<rparr>"
  have a: "fst (auth v req init) = Next" by (simp add: auth_def js_def req_def v_def)
  have route: "post_create v conv req init = respond [create_handler conv] req init"
    by (simp only: post_create_def respond_auth_passes [OF a])
  have h: "create_handler conv req init =
      (Respond \<lparr>status = 201, payload = OneTask (fst (create (JNum 7) init))\<rparr>,
       snd (create (JNum 7) init))"
    by (simp add: create_handler_def req_def js_def Let_def)
  have t: "fst (create (JNum 7) init) = \<lparr>task_id = 1, description = JNum 7\<rparr>"
    by (simp add: create_store init_def)
  have r: "post_create v conv req init =
      (\<lparr>status = 201, payload = OneTask \<lparr>task_id = 1, description = JNum 7\<rparr>\<rparr>,
       snd (create (JNum 7) init))"
    by (simp add: route respond_single h t)
  have l: "get_prop (JNum 7) Prop_length = Inr JUndefined" by simp
  have st: "map description (tasks_arr (snd (create (JNum 7) init))) = [JNum 7]"
    by (simp add: create_store) (simp add: init_def tasks_arr_def)
  from r l st
  have "post_create v conv req init =
      (\<lparr>status = 201, payload = OneTask \<lparr>task_id = 1, description = JNum 7\<rparr>\<rparr>,
       snd (create (JNum 7) init)) \<and>
    get_prop (JNum 7) Prop_length = Inr JUndefined \<and>
    map description (tasks_arr (snd (create (JNum 7) init))) = [JNum 7]"
    by (intro conjI)
  then show ?thesis unfolding v_def req_def .
qed

end
